theory Spec2Isabelle
  imports Complex_Main "HOL-Library.Char_ord" "HOL-Library.List_Lexorder" "HOL-Library.Log_Nat"
begin

section \<open>Paths, extensions and the allow-list\<close>

text \<open>
  File identifiers are path strings. The helpers below are the POSIX versions of the
  standard-library functions the handler calls (\<^verbatim>\<open>os.path.basename\<close>,
  \<^verbatim>\<open>os.path.join\<close>, \<^verbatim>\<open>os.path.splitext\<close>, \<^verbatim>\<open>str.lower\<close>), written out so that
  \<^verbatim>\<open>is_supported_file\<close> computes. Strings are byte strings; case folding is the ASCII one.
\<close>

type_synonym path = string

definition lower_char :: "char \<Rightarrow> char" where
  "lower_char c =
     (if CHR ''A'' \<le> c \<and> c \<le> CHR ''Z'' then char_of (of_char c + (32::nat)) else c)"

definition lower :: "string \<Rightarrow> string" where
  "lower s = map lower_char s"

definition basename :: "path \<Rightarrow> string" where
  "basename p = rev (takeWhile (\<lambda>c. c \<noteq> CHR ''/'') (rev p))"

definition join :: "path \<Rightarrow> string \<Rightarrow> path" where
  "join a b =
     (if b \<noteq> [] \<and> hd b = CHR ''/'' then b
      else if a = [] \<or> last a = CHR ''/'' then a @ b
      else a @ ''/'' @ b)"

text \<open>
  \<^verbatim>\<open>splitext\<close> cuts at the last dot of the last path component, unless that component
  consists of dots only up to that point (a leading-dot name has no extension).
\<close>

definition splitext :: "path \<Rightarrow> path \<times> string" where
  "splitext p =
     (let b = basename p;
          after = rev (takeWhile (\<lambda>c. c \<noteq> CHR ''.'') (rev b));
          stem = take (length b - length after - 1) b
      in if CHR ''.'' \<in> set b \<and> \<not> list_all (\<lambda>c. c = CHR ''.'') stem
         then (take (length p - length after - 1) p, CHR ''.'' # after)
         else (p, []))"

definition SUPPORTED_IMAGE_FORMATS :: "string set" where
  "SUPPORTED_IMAGE_FORMATS =
     {''.jpg'', ''.jpeg'', ''.png'', ''.gif'', ''.bmp'', ''.tiff'', ''.webp''}"

definition SUPPORTED_VIDEO_FORMATS :: "string set" where
  "SUPPORTED_VIDEO_FORMATS =
     {''.mp4'', ''.avi'', ''.mov'', ''.mkv'', ''.wmv'', ''.flv'', ''.webm''}"

definition is_supported_file :: "path \<Rightarrow> bool" where
  "is_supported_file filepath =
     (let ext = lower (snd (splitext filepath))
      in ext \<in> SUPPORTED_IMAGE_FORMATS \<or> ext \<in> SUPPORTED_VIDEO_FORMATS)"

definition is_video_file :: "path \<Rightarrow> bool" where
  "is_video_file filepath = (lower (snd (splitext filepath)) \<in> SUPPORTED_VIDEO_FORMATS)"

definition is_image_file :: "path \<Rightarrow> bool" where
  "is_image_file filepath = (lower (snd (splitext filepath)) \<in> SUPPORTED_IMAGE_FORMATS)"

section \<open>Exceptions and floats\<close>

text \<open>A call that may raise returns an \<open>outcome\<close>: the exception's text, or the value.\<close>

datatype 'a outcome = Raises string | Returns 'a

text \<open>
  A Python float is an IEEE 754 binary64 number. A finite one is written \<open>Finite m e\<close> for
  \<open>m * 2 ^ e\<close> (a double has \<open>\<bar>m\<bar> < 2 ^ 53\<close> and \<open>- 1074 \<le> e \<le> 971\<close>; the sign of a zero is
  not kept). Arithmetic rounds to the nearest double, ties to the even mantissa:
  \<open>round_half_even p k\<close> is \<open>p / 2 ^ k\<close> rounded that way for \<open>p \<ge> 0\<close>, and
  \<open>nearest_double m e\<close> rounds \<open>m * 2 ^ e\<close> to 53 bits, or to a multiple of the smallest
  subnormal \<open>2 ^ - 1074\<close>, and gives an infinity when the rounded value reaches \<open>2 ^ 1024\<close>.
\<close>

datatype pyfloat = Finite int int | PosInf | NegInf | NaN

definition round_half_even :: "int \<Rightarrow> nat \<Rightarrow> int" where
  "round_half_even p k =
     (let q = p div 2 ^ k; r = p mod 2 ^ k
      in if 2 ^ k < 2 * r \<or> (2 * r = 2 ^ k \<and> odd q) then q + 1 else q)"

definition nearest_double :: "int \<Rightarrow> int \<Rightarrow> pyfloat" where
  "nearest_double m e =
     (let k = nat (max (bitlen \<bar>m\<bar> - 53) (- 1074 - e));
          q = round_half_even \<bar>m\<bar> k
      in if 0 < q \<and> 1024 < bitlen q + (e + int k) then (if m < 0 then NegInf else PosInf)
         else Finite (sgn m * q) (e + int k))"

text \<open>
  \<^verbatim>\<open>float(n)\<close> of an integer, which Python applies to the integer operand of a mixed
  product or quotient: the nearest double, or \<^verbatim>\<open>OverflowError\<close>.
\<close>

definition py_float :: "int \<Rightarrow> pyfloat outcome" where
  "py_float n =
     (case nearest_double n 0 of
        Finite m e \<Rightarrow> Returns (Finite m e)
      | _ \<Rightarrow> Raises ''int too large to convert to float'')"

text \<open>\<^verbatim>\<open>int(x)\<close> of a float truncates toward zero, and raises on an infinity or a NaN.\<close>

definition py_int :: "pyfloat \<Rightarrow> int outcome" where
  "py_int x =
     (case x of
        Finite m e \<Rightarrow>
          Returns (if 0 \<le> e then m * 2 ^ nat e else sgn m * (\<bar>m\<bar> div 2 ^ nat (- e)))
      | PosInf \<Rightarrow> Raises ''cannot convert float infinity to integer''
      | NegInf \<Rightarrow> Raises ''cannot convert float infinity to integer''
      | NaN \<Rightarrow> Raises ''cannot convert float NaN to integer'')"

fun float_sign :: "pyfloat \<Rightarrow> int" where
  "float_sign (Finite m e) = sgn m"
| "float_sign PosInf = 1"
| "float_sign NegInf = - 1"
| "float_sign NaN = 0"

text \<open>The product of two floats; an infinity times zero is a NaN.\<close>

fun float_mul :: "pyfloat \<Rightarrow> pyfloat \<Rightarrow> pyfloat" where
  "float_mul (Finite m1 e1) (Finite m2 e2) = nearest_double (m1 * m2) (e1 + e2)"
| "float_mul x y =
     (if x = NaN \<or> y = NaN \<or> float_sign x * float_sign y = 0 then NaN
      else if float_sign x * float_sign y < 0 then NegInf else PosInf)"

text \<open>
  The quotient of two floats, \<^verbatim>\<open>ZeroDivisionError\<close> for a zero divisor. For two finite
  operands the quotient of the mantissas is taken to at least 55 bits and one more bit
  records whether a remainder is left, which is enough to round it as the exact quotient.
\<close>

definition float_truediv :: "pyfloat \<Rightarrow> pyfloat \<Rightarrow> pyfloat outcome" where
  "float_truediv x y =
     (case (x, y) of
        (Finite m1 e1, Finite m2 e2) \<Rightarrow>
          if m2 = 0 then Raises ''float division by zero''
          else
            let s = nat (max 0 (bitlen \<bar>m2\<bar> + 55 - bitlen \<bar>m1\<bar>));
                q = (\<bar>m1\<bar> * 2 ^ s) div \<bar>m2\<bar>;
                r = (\<bar>m1\<bar> * 2 ^ s) mod \<bar>m2\<bar>
            in Returns (nearest_double (sgn m1 * sgn m2 * (2 * q + (if r = 0 then 0 else 1)))
                          (e1 - e2 - int s - 1))
      | (Finite m1 e1, NaN) \<Rightarrow> Returns NaN
      | (Finite m1 e1, _) \<Rightarrow> Returns (Finite 0 0)
      | (NaN, Finite m2 e2) \<Rightarrow> if m2 = 0 then Raises ''float division by zero'' else Returns NaN
      | (_, Finite m2 e2) \<Rightarrow>
          if m2 = 0 then Raises ''float division by zero''
          else Returns (if float_sign x * sgn m2 < 0 then NegInf else PosInf)
      | _ \<Rightarrow> Returns NaN)"

text \<open>\<^verbatim>\<open>x > 0\<close> for a float \<open>x\<close>; every comparison with a NaN is false.\<close>

definition float_positive :: "pyfloat \<Rightarrow> bool" where
  "float_positive x = (0 < float_sign x)"

text \<open>The literal \<^verbatim>\<open>0.1\<close>: the double nearest to one tenth.\<close>

definition one_tenth :: pyfloat where
  "one_tenth = Finite 7205759403792794 (- 56)"

section \<open>The frame a video thumbnail is taken from\<close>

text \<open>
  \<^verbatim>\<open>target_frame = max(1, int(frame_count * 0.1))\<close>: the integer count is converted to a
  float, multiplied by the double \<^verbatim>\<open>0.1\<close>, and the product truncated.
\<close>

definition target_frame :: "int \<Rightarrow> int outcome" where
  "target_frame frame_count =
     (case py_float frame_count of
        Raises e \<Rightarrow> Raises e
      | Returns x \<Rightarrow>
          (case py_int (float_mul x one_tenth) of
             Raises e \<Rightarrow> Raises e
           | Returns i \<Rightarrow> Returns (max 1 i)))"

section \<open>Selection state of the viewers\<close>

text \<open>
  Both viewers hold the ordered file list and the set of selected identifiers. The GUI
  also holds the identifiers shown in the grid (one item per entry drawn).
\<close>

record cli_viewer =
  media_files :: "path list"
  selected_files :: "path set"
  current_directory :: path

record gui_viewer =
  g_media_files :: "path list"
  g_selected_files :: "path set"
  g_current_directory :: path
  g_grid :: "path list"
  g_status :: string

datatype message =
    NoFilesSelected
  | DeleteCancelled
  | Deleted string
  | ErrorDeleting string string
  | Tally nat nat
  | Kept nat nat

text \<open>\<^verbatim>\<open>CLIMediaViewer.keep_selected\<close>: returns the new state and what is printed.\<close>

definition keep_selected :: "cli_viewer \<Rightarrow> cli_viewer \<times> message list" where
  "keep_selected s =
     (if selected_files s = {} then (s, [NoFilesSelected])
      else
        let original_count = length (media_files s);
            kept = filter (\<lambda>f. f \<in> selected_files s) (media_files s);
            kept_count = length kept
        in (s\<lparr>media_files := kept, selected_files := {}\<rparr>,
            [Kept kept_count (original_count - kept_count)]))"

text \<open>
  \<^verbatim>\<open>MediaBridgeViewer._keep_selected\<close>: the same filter, then the grid is cleared and
  drawn again (\<^verbatim>\<open>_populate_grid\<close> draws nothing for an empty list).
\<close>

definition populate_grid :: "gui_viewer \<Rightarrow> gui_viewer" where
  "populate_grid s =
     (if g_media_files s = [] then s\<lparr>g_status := ''No supported media files found''\<rparr>
      else s\<lparr>g_status := ''Loading thumbnails'', g_grid := g_grid s @ g_media_files s\<rparr>)"

definition clear_grid :: "gui_viewer \<Rightarrow> gui_viewer" where
  "clear_grid s = s\<lparr>g_grid := []\<rparr>"

definition gui_keep_selected :: "gui_viewer \<Rightarrow> gui_viewer" where
  "gui_keep_selected s =
     (if g_selected_files s = {} then s
      else
        populate_grid (clear_grid
          (s\<lparr>g_media_files := filter (\<lambda>f. f \<in> g_selected_files s) (g_media_files s),
             g_selected_files := {}\<rparr>)))"

section \<open>Files, decoders and pictures\<close>

text \<open>
  The decoders (\<^verbatim>\<open>PIL.Image.open\<close>, \<^verbatim>\<open>cv2.VideoCapture\<close>) are external. A file is
  modelled by what they report on it: its byte size, the image \<^verbatim>\<open>Image.open\<close> returns or
  the exception it raises, and the capture \<^verbatim>\<open>cv2.VideoCapture\<close> gives (\<open>None\<close> when the
  handle does not open).
\<close>

record pil_image =
  img_mode :: string
  img_size :: "nat \<times> nat"
  img_format :: string
  img_data :: nat

datatype frame = Frame nat

text \<open>
  An opened capture: the floats \<^verbatim>\<open>cap.get\<close> returns for the four properties the
  handler asks for, and the frames the decoder delivers, by position.
\<close>

record video_capture =
  cap_width :: pyfloat
  cap_height :: pyfloat
  cap_fps :: pyfloat
  cap_frame_count :: pyfloat
  cap_frames :: "frame list"

record disk_file =
  file_size :: nat
  as_image :: "pil_image outcome"
  as_video :: "video_capture option outcome"

type_synonym filesystem = "path \<rightharpoonup> disk_file"

text \<open>
  The image operations of the library are kept symbolic: a picture records which
  operations were applied to which decoded data (\<open>FromArray\<close> is the image made of a
  video frame after its colour conversion, \<open>VideoIndicator\<close> the play badge drawn by
  \<^verbatim>\<open>_add_video_indicator\<close>). A \<^verbatim>\<open>PhotoImage\<close> is an object; its number tells two
  objects apart.
\<close>

datatype picture =
    FromFile pil_image
  | FromArray frame
  | Convert string picture
  | Thumbnail "nat \<times> nat" picture
  | VideoIndicator picture

datatype photo = PhotoImage (photo_id: nat) (photo_picture: picture)

text \<open>\<^verbatim>\<open>cap.set(CAP_PROP_POS_FRAMES, t); ret, frame = cap.read()\<close>\<close>

definition read_frame :: "video_capture \<Rightarrow> int \<Rightarrow> frame option" where
  "read_frame cap t =
     (if 0 \<le> t \<and> nat t < length (cap_frames cap) then Some (cap_frames cap ! nat t)
      else None)"

section \<open>MediaHandler\<close>

text \<open>
  The handler's state: the thumbnail bound and the cache, a dictionary from path to
  \<^verbatim>\<open>PhotoImage\<close>. Two counters are kept beside them to observe the decoder: the paths
  handed to a decoder by the thumbnail code, in order, and the number of \<^verbatim>\<open>PhotoImage\<close>
  objects created.
\<close>

record handler =
  thumbnail_size :: "nat \<times> nat"
  cache :: "path \<rightharpoonup> photo"
  decoder_calls :: "path list"
  photos_made :: nat

definition create_image_thumbnail ::
  "filesystem \<Rightarrow> 'a handler_scheme \<Rightarrow> path \<Rightarrow> photo option outcome \<times> 'a handler_scheme" where
  "create_image_thumbnail fs h filepath =
     (let h1 = h\<lparr>decoder_calls := decoder_calls h @ [filepath]\<rparr> in
      case fs filepath of
        None \<Rightarrow> (Raises ''FileNotFoundError'', h1)
      | Some f \<Rightarrow>
          (case as_image f of
             Raises e \<Rightarrow> (Raises e, h1)
           | Returns img \<Rightarrow>
               let img1 = (if img_mode img \<noteq> ''RGB'' then Convert ''RGB'' (FromFile img)
                             else FromFile img);
                   img2 = Thumbnail (thumbnail_size h) img1
               in (Returns (Some (PhotoImage (photos_made h) img2)),
                   h1\<lparr>photos_made := Suc (photos_made h)\<rparr>)))"

definition create_video_thumbnail ::
  "filesystem \<Rightarrow> 'a handler_scheme \<Rightarrow> path \<Rightarrow> photo option outcome \<times> 'a handler_scheme" where
  "create_video_thumbnail fs h filepath =
     (let h1 = h\<lparr>decoder_calls := decoder_calls h @ [filepath]\<rparr> in
      case (case fs filepath of None \<Rightarrow> Returns None | Some f \<Rightarrow> as_video f) of
        Raises e \<Rightarrow> (Raises e, h1)
      | Returns None \<Rightarrow> (Returns None, h1)
      | Returns (Some cap) \<Rightarrow>
          (case py_int (cap_frame_count cap) of
             Raises e \<Rightarrow> (Raises e, h1)
           | Returns frame_count \<Rightarrow>
               (case target_frame frame_count of
                  Raises e \<Rightarrow> (Raises e, h1)
                | Returns t \<Rightarrow>
                    (case read_frame cap t of
                       None \<Rightarrow> (Returns None, h1)
                     | Some frame \<Rightarrow>
                         let img = Thumbnail (thumbnail_size h) (FromArray frame);
                             img1 = VideoIndicator img
                         in (Returns (Some (PhotoImage (photos_made h) img1)),
                             h1\<lparr>photos_made := Suc (photos_made h)\<rparr>)))))"

text \<open>
  \<^verbatim>\<open>create_thumbnail\<close>: a cached entry is returned as it is; otherwise the thumbnail is
  computed and, when there is one, stored under \<open>filepath\<close>. Any exception is caught and
  gives \<open>None\<close>.
\<close>

definition create_thumbnail ::
  "filesystem \<Rightarrow> 'a handler_scheme \<Rightarrow> path \<Rightarrow> photo option \<times> 'a handler_scheme" where
  "create_thumbnail fs h filepath =
     (case cache h filepath of
        Some cached \<Rightarrow> (Some cached, h)
      | None \<Rightarrow>
          (case (if is_video_file filepath then create_video_thumbnail fs h filepath
                 else create_image_thumbnail fs h filepath) of
             (Returns (Some thumbnail), h1) \<Rightarrow>
               (Some thumbnail, h1\<lparr>cache := (cache h1)(filepath \<mapsto> thumbnail)\<rparr>)
           | (Returns None, h1) \<Rightarrow> (None, h1)
           | (Raises e, h1) \<Rightarrow> (None, h1)))"

definition clear_cache :: "'a handler_scheme \<Rightarrow> 'a handler_scheme" where
  "clear_cache h = h\<lparr>cache := Map.empty\<rparr>"

text \<open>A run of fetches with no clear in between; the file system may change from one to the next.\<close>

fun fetch_all :: "(filesystem \<times> path) list \<Rightarrow> 'a handler_scheme \<Rightarrow> 'a handler_scheme" where
  "fetch_all [] h = h"
| "fetch_all ((fs, p) # rest) h = fetch_all rest (snd (create_thumbnail fs h p))"

subsection \<open>Media information\<close>

text \<open>The dictionary \<^verbatim>\<open>get_media_info\<close> returns maps keys to Python values.\<close>

datatype pyval = PyStr string | PyInt int | PyFloat pyfloat | PyBool bool

type_synonym info = "string \<rightharpoonup> pyval"

definition path_exists :: "filesystem \<Rightarrow> path \<Rightarrow> bool" where
  "path_exists fs p = (fs p \<noteq> None)"

definition getsize :: "filesystem \<Rightarrow> path \<Rightarrow> nat outcome" where
  "getsize fs p = (case fs p of None \<Rightarrow> Raises ''FileNotFoundError'' | Some f \<Rightarrow> Returns (file_size f))"

text \<open>
  \<^verbatim>\<open>info["duration"] = info["frame_count"] / info["fps"] if info["fps"] > 0 else 0\<close>: the
  quotient of an integer by a float, which converts the integer first.
\<close>

definition duration :: "int \<Rightarrow> pyfloat \<Rightarrow> pyval outcome" where
  "duration frame_count fps =
     (if float_positive fps then
        (case py_float frame_count of
           Raises e \<Rightarrow> Raises e
         | Returns x \<Rightarrow>
             (case float_truediv x fps of
                Raises e \<Rightarrow> Raises e
              | Returns d \<Rightarrow> Returns (PyFloat d)))
      else Returns (PyInt 0))"

text \<open>
  The body of the \<^verbatim>\<open>try\<close> block. It fills the dictionary key by key, so the result is
  the dictionary as far as it was filled, and the exception that ended the block if one
  did.
\<close>

definition get_media_info_try :: "filesystem \<Rightarrow> path \<Rightarrow> info \<Rightarrow> info \<times> string option" where
  "get_media_info_try fs filepath info =
     (if is_video_file filepath then
        (case (case fs filepath of None \<Rightarrow> Returns None | Some f \<Rightarrow> as_video f) of
           Raises e \<Rightarrow> (info, Some e)
         | Returns None \<Rightarrow> (info, None)
         | Returns (Some cap) \<Rightarrow>
             (case py_int (cap_width cap) of
                Raises e \<Rightarrow> (info, Some e)
              | Returns width \<Rightarrow>
                  let info1 = info(''width'' \<mapsto> PyInt width) in
                  (case py_int (cap_height cap) of
                     Raises e \<Rightarrow> (info1, Some e)
                   | Returns height \<Rightarrow>
                       let info2 = info1(''height'' \<mapsto> PyInt height,
                                         ''fps'' \<mapsto> PyFloat (cap_fps cap)) in
                       (case py_int (cap_frame_count cap) of
                          Raises e \<Rightarrow> (info2, Some e)
                        | Returns frame_count \<Rightarrow>
                            let info3 = info2(''frame_count'' \<mapsto> PyInt frame_count) in
                            (case duration frame_count (cap_fps cap) of
                               Raises e \<Rightarrow> (info3, Some e)
                             | Returns d \<Rightarrow> (info3(''duration'' \<mapsto> d), None))))))
      else
        (case (case fs filepath of None \<Rightarrow> Raises ''FileNotFoundError'' | Some f \<Rightarrow> as_image f) of
           Raises e \<Rightarrow> (info, Some e)
         | Returns img \<Rightarrow>
             (info
               (''width'' \<mapsto> PyInt (int (fst (img_size img))),
                ''height'' \<mapsto> PyInt (int (snd (img_size img))),
                ''format'' \<mapsto> PyStr (img_format img)), None)))"

text \<open>
  \<^verbatim>\<open>get_media_info\<close>. The existence test and \<^verbatim>\<open>getsize\<close> stand outside the \<^verbatim>\<open>try\<close>: an
  exception of theirs would leave the function; an exception of the body is caught and
  stored under \<^verbatim>\<open>"error"\<close>.
\<close>

definition get_media_info :: "filesystem \<Rightarrow> path \<Rightarrow> info outcome" where
  "get_media_info fs filepath =
     (if \<not> path_exists fs filepath then Returns [''error'' \<mapsto> PyStr ''File not found'']
      else
        case getsize fs filepath of
          Raises e \<Rightarrow> Raises e
        | Returns sz \<Rightarrow>
            let info =
                  [''filepath'' \<mapsto> PyStr filepath,
                   ''filename'' \<mapsto> PyStr (basename filepath),
                   ''size'' \<mapsto> PyInt (int sz),
                   ''type'' \<mapsto> PyStr (if is_video_file filepath then ''video'' else ''image''),
                   ''supported'' \<mapsto> PyBool (is_supported_file filepath)]
            in case get_media_info_try fs filepath info of
                 (info1, Some e) \<Rightarrow> Returns (info1(''error'' \<mapsto> PyStr e))
               | (info1, None) \<Rightarrow> Returns info1)"

section \<open>RemoteMediaHandler\<close>

text \<open>
  The remote handler extends the local one by the scratch directory \<^verbatim>\<open>temp_dir\<close>. What
  \<^verbatim>\<open>scp\<close> does is given by the environment: it copies the remote file to the local
  path and exits with status 0, or it fails (non-zero status, time-out, any exception),
  having written nothing or part of the file. The local file system, where the scratch
  directory lives, is passed along and returned.
\<close>

record remote_handler = handler +
  temp_dir :: path

datatype transfer = Copied disk_file | Failed "disk_file option"

definition download_file ::
  "(path \<Rightarrow> transfer) \<Rightarrow> path \<Rightarrow> path \<Rightarrow> filesystem \<Rightarrow> bool \<times> filesystem" where
  "download_file scp remote_path local_path fs =
     (case scp remote_path of
        Copied f \<Rightarrow> (True, fs(local_path \<mapsto> f))
      | Failed None \<Rightarrow> (False, fs)
      | Failed (Some part) \<Rightarrow> (False, fs(local_path \<mapsto> part)))"

text \<open>\<^verbatim>\<open>if os.path.exists(local_path): os.remove(local_path)\<close>\<close>

definition remove_if_exists :: "path \<Rightarrow> filesystem \<Rightarrow> filesystem" where
  "remove_if_exists local_path fs = (if path_exists fs local_path then fs(local_path := None) else fs)"

definition remote_create_thumbnail ::
  "(path \<Rightarrow> transfer) \<Rightarrow> filesystem \<Rightarrow> remote_handler \<Rightarrow> path
     \<Rightarrow> photo option \<times> remote_handler \<times> filesystem" where
  "remote_create_thumbnail scp fs h filepath =
     (let filename = basename filepath;
          local_path = join (temp_dir h) filename
      in case download_file scp filepath local_path fs of
           (False, fs1) \<Rightarrow> (None, h, fs1)
         | (True, fs1) \<Rightarrow>
             (case create_thumbnail fs1 h local_path of
                (thumbnail, h1) \<Rightarrow> (thumbnail, h1, remove_if_exists local_path fs1)))"

definition remote_get_media_info ::
  "(path \<Rightarrow> transfer) \<Rightarrow> filesystem \<Rightarrow> remote_handler \<Rightarrow> path \<Rightarrow> info outcome \<times> filesystem" where
  "remote_get_media_info scp fs h filepath =
     (let filename = basename filepath;
          local_path = join (temp_dir h) filename
      in case download_file scp filepath local_path fs of
           (False, fs1) \<Rightarrow> (Returns [''error'' \<mapsto> PyStr ''Could not download file''], fs1)
         | (True, fs1) \<Rightarrow> (get_media_info fs1 local_path, remove_if_exists local_path fs1))"

text \<open>
  \<^verbatim>\<open>RemoteMediaViewer._open_file_externally\<close>: the result is the local path handed to the
  system's opener (if any), the status line, and the local file system.
\<close>

definition open_file_externally ::
  "(path \<Rightarrow> transfer) \<Rightarrow> filesystem \<Rightarrow> remote_handler \<Rightarrow> path
     \<Rightarrow> path option \<times> string \<times> filesystem" where
  "open_file_externally scp fs h filepath =
     (let filename = basename filepath;
          local_path = join (temp_dir h) filename
      in case download_file scp filepath local_path fs of
           (True, fs1) \<Rightarrow> (Some local_path, ''Opened '' @ filename, fs1)
         | (False, fs1) \<Rightarrow> (None, ''Download failed'', fs1))"

section \<open>The local enumerator\<close>

text \<open>
  The directory operations of the platform are the environment: \<^verbatim>\<open>os.path.exists\<close>,
  \<^verbatim>\<open>os.listdir\<close> (which may raise \<^verbatim>\<open>OSError\<close>), \<^verbatim>\<open>os.path.isfile\<close> and \<^verbatim>\<open>os.walk\<close>, which
  yields triples of a directory, its subdirectory names and its file names.
\<close>

record dir_env =
  dir_exists :: "path \<Rightarrow> bool"
  listdir :: "path \<Rightarrow> string list outcome"
  isfile :: "path \<Rightarrow> bool"
  walk :: "path \<Rightarrow> (path \<times> string list \<times> string list) list"

definition get_files_in_directory :: "dir_env \<Rightarrow> path \<Rightarrow> bool \<Rightarrow> path list" where
  "get_files_in_directory env directory recursive =
     sort
       (if recursive then
          concat (map (\<lambda>(root, dirs, filenames).
                    filter is_supported_file (map (join root) filenames))
                  (walk env directory))
        else
          (case listdir env directory of
             Raises e \<Rightarrow> []
           | Returns filenames \<Rightarrow>
               filter (\<lambda>filepath. isfile env filepath \<and> is_supported_file filepath)
                 (map (join directory) filenames)))"

text \<open>The paths the enumerator visits, before any filtering.\<close>

definition visited_paths :: "dir_env \<Rightarrow> path \<Rightarrow> bool \<Rightarrow> path list" where
  "visited_paths env directory recursive =
     (if recursive then
        concat (map (\<lambda>(root, dirs, filenames). map (join root) filenames) (walk env directory))
      else
        (case listdir env directory of
           Raises e \<Rightarrow> []
         | Returns filenames \<Rightarrow> map (join directory) filenames))"

section \<open>CLIMediaViewer\<close>







text \<open>
  \<^verbatim>\<open>delete_selected\<close>. \<^verbatim>\<open>os.remove\<close> is the environment's: \<open>None\<close> when the file was
  removed, the exception's text otherwise. The loop runs over \<^verbatim>\<open>list(self.selected_files)\<close>,
  whose order Python does not fix, so the order is an argument. Inside the \<^verbatim>\<open>try\<close>,
  \<^verbatim>\<open>list.remove\<close> raises when the path is not in the list and \<^verbatim>\<open>set.remove\<close> when it is not
  in the set; both are caught like a failed \<^verbatim>\<open>os.remove\<close>, after the counter was raised.
\<close>

definition is_space :: "char \<Rightarrow> bool" where
  "is_space c = (c \<in> set [CHR '' '', CHR 0x09, CHR 0x0A, CHR 0x0B, CHR 0x0C, CHR 0x0D])"

definition strip :: "string \<Rightarrow> string" where
  "strip s = rev (dropWhile is_space (rev (dropWhile is_space s)))"

fun delete_loop ::
  "(path \<Rightarrow> string option) \<Rightarrow> path list \<Rightarrow> cli_viewer \<times> nat \<times> message list
     \<Rightarrow> cli_viewer \<times> nat \<times> message list" where
  "delete_loop os_remove [] acc = acc"
| "delete_loop os_remove (filepath # rest) (s, deleted_count, out) =
     (case os_remove filepath of
        Some e \<Rightarrow>
          delete_loop os_remove rest
            (s, deleted_count, out @ [ErrorDeleting (basename filepath) e])
      | None \<Rightarrow>
          if filepath \<notin> set (media_files s) then
            delete_loop os_remove rest
              (s, Suc deleted_count,
               out @ [ErrorDeleting (basename filepath) ''list.remove(x): x not in list''])
          else if filepath \<notin> selected_files s then
            delete_loop os_remove rest
              (s\<lparr>media_files := remove1 filepath (media_files s)\<rparr>, Suc deleted_count,
               out @ [ErrorDeleting (basename filepath) ''KeyError''])
          else
            delete_loop os_remove rest
              (s\<lparr>media_files := remove1 filepath (media_files s),
                 selected_files := selected_files s - {filepath}\<rparr>,
               Suc deleted_count, out @ [Deleted (basename filepath)]))"

definition delete_selected ::
  "(path \<Rightarrow> string option) \<Rightarrow> string \<Rightarrow> path list \<Rightarrow> cli_viewer \<Rightarrow> cli_viewer \<times> message list" where
  "delete_selected os_remove response order s =
     (if selected_files s = {} then (s, [NoFilesSelected])
      else
        let count = card (selected_files s) in
        if lower (strip response) \<notin> set [''yes'', ''y''] then (s, [DeleteCancelled])
        else
          (case delete_loop os_remove order (s, 0, []) of
             (s1, deleted_count, out) \<Rightarrow> (s1, out @ [Tally deleted_count count])))"



section \<open>MediaBridgeViewer\<close>


text \<open>
  \<^verbatim>\<open>MediaBridgeViewer.load_directory\<close>, with the background listing and the grid update
  it schedules taken as one step.
\<close>

definition gui_load_directory :: "dir_env \<Rightarrow> bool \<Rightarrow> gui_viewer \<Rightarrow> path \<Rightarrow> gui_viewer" where
  "gui_load_directory env recursive s directory =
     (if \<not> dir_exists env directory then s
      else
        let s1 = s\<lparr>g_current_directory := directory, g_status := ''Loading files''\<rparr>;
            s2 = clear_grid (s1\<lparr>g_selected_files := {}\<rparr>);
            s3 = s2\<lparr>g_media_files := get_files_in_directory env directory recursive\<rparr>
        in populate_grid s3)"








section \<open>Concrete inputs\<close>

text \<open>Small inputs on which the definitions above are run in the results below.\<close>

definition example_image :: pil_image where
  "example_image =
     \<lparr>img_mode = ''RGB'', img_size = (640, 480), img_format = ''JPEG'', img_data = 1\<rparr>"

definition other_image :: pil_image where
  "other_image =
     \<lparr>img_mode = ''RGB'', img_size = (800, 600), img_format = ''JPEG'', img_data = 2\<rparr>"

definition image_file :: "pil_image \<Rightarrow> disk_file" where
  "image_file img = \<lparr>file_size = 1000, as_image = Returns img, as_video = Returns None\<rparr>"

definition unreadable_file :: disk_file where
  "unreadable_file =
     \<lparr>file_size = 12, as_image = Raises ''cannot identify image file'',
      as_video = Returns None\<rparr>"

definition example_fs :: filesystem where
  "example_fs = [''a.jpg'' \<mapsto> image_file example_image, ''clip.mp4'' \<mapsto> unreadable_file]"

definition new_handler :: handler where
  "new_handler =
     \<lparr>thumbnail_size = (300, 200), cache = Map.empty, decoder_calls = [], photos_made = 0\<rparr>"

definition a_photo :: photo where
  "a_photo = PhotoImage 0 (Thumbnail (300, 200) (FromFile example_image))"

definition handler_with_a :: handler where
  "handler_with_a =
     \<lparr>thumbnail_size = (300, 200), cache = [''a.jpg'' \<mapsto> a_photo],
      decoder_calls = [''a.jpg''], photos_made = 1\<rparr>"

definition new_remote_handler :: remote_handler where
  "new_remote_handler =
     \<lparr>thumbnail_size = (300, 200), cache = Map.empty, decoder_calls = [], photos_made = 0,
      temp_dir = ''/tmp/media_bridge_x''\<rparr>"

text \<open>
  A remote host with two files of the same name in two directories, and a third whose
  transfer times out after part of it was written.
\<close>

definition example_scp :: "path \<Rightarrow> transfer" where
  "example_scp p =
     (if p = ''/srv/a/clip.jpg'' then Copied (image_file example_image)
      else if p = ''/srv/b/clip.jpg'' then Copied (image_file other_image)
      else if p = ''/srv/a/slow.jpg'' then Failed (Some unreadable_file)
      else Failed None)"

definition clip_photo :: photo where
  "clip_photo = PhotoImage 0 (Thumbnail (300, 200) (FromFile example_image))"

definition handler_with_clip :: remote_handler where
  "handler_with_clip =
     \<lparr>thumbnail_size = (300, 200), cache = [''/tmp/media_bridge_x/clip.jpg'' \<mapsto> clip_photo],
      decoder_calls = [''/tmp/media_bridge_x/clip.jpg''], photos_made = 1,
      temp_dir = ''/tmp/media_bridge_x''\<rparr>"

text \<open>A clip of three frames.\<close>

definition short_clip :: video_capture where
  "short_clip =
     \<lparr>cap_width = Finite 640 0, cap_height = Finite 480 0, cap_fps = Finite 30 0,
      cap_frame_count = Finite 3 0, cap_frames = [Frame 0, Frame 1, Frame 2]\<rparr>"

definition short_file :: disk_file where
  "short_file =
     \<lparr>file_size = 5000, as_image = Raises ''cannot identify image file'',
      as_video = Returns (Some short_clip)\<rparr>"

definition video_fs :: filesystem where
  "video_fs = [''short.mp4'' \<mapsto> short_file]"

text \<open>Two directories, each with one picture.\<close>

definition example_dirs :: dir_env where
  "example_dirs =
     \<lparr>dir_exists = (\<lambda>d. d \<in> set [''/d1'', ''/d2'']),
      listdir = (\<lambda>d. if d = ''/d1'' then Returns [''a.jpg'']
                      else if d = ''/d2'' then Returns [''b.jpg'', ''notes.txt'', ''B.PNG'']
                      else Raises ''FileNotFoundError''),
      isfile = (\<lambda>p. True),
      walk = (\<lambda>d. if d = ''/d2'' then [(''/d2'', [], [''b.jpg'', ''notes.txt'', ''B.PNG''])]
                   else [])\<rparr>"



definition unopened_info :: info where
  "unopened_info =
     [''filepath'' \<mapsto> PyStr ''clip.mp4'',
      ''filename'' \<mapsto> PyStr ''clip.mp4'',
      ''size'' \<mapsto> PyInt 12,
      ''type'' \<mapsto> PyStr ''video'',
      ''supported'' \<mapsto> PyBool True]"

text \<open>Three listed files, two of them selected, one of which cannot be removed.\<close>

definition three_files :: cli_viewer where
  "three_files =
     \<lparr>media_files = [''/d/a.jpg'', ''/d/b.jpg'', ''/d/c.jpg''],
      selected_files = {''/d/a.jpg'', ''/d/c.jpg''}, current_directory = ''/d''\<rparr>"

definition c_is_protected :: "path \<Rightarrow> string option" where
  "c_is_protected p = (if p = ''/d/c.jpg'' then Some ''Permission denied'' else None)"

section \<open>Results\<close>

subsection \<open>The frame a video thumbnail is taken from\<close>

text \<open>
  The double \<^verbatim>\<open>0.1\<close> has a mantissa of 53 bits, the whole number nearest to
  \<open>2 ^ 56 / 10\<close>. It is slightly larger than one tenth.
\<close>

lemma one_tenth_nearest:
  "\<exists>m. one_tenth = Finite m (- 56) \<and> 2 ^ 52 \<le> m \<and> m < 2 ^ 53 \<and> 10 * m - 2 ^ 56 = 4"
  by (simp add: one_tenth_def)

lemma round_half_even_bounds:
  "p div 2 ^ k \<le> round_half_even p k \<and> round_half_even p k \<le> p div 2 ^ k + 1"
  by (simp add: round_half_even_def Let_def)

lemma round_half_even_exact: "round_half_even p 0 = p"
  by (simp add: round_half_even_def)

lemma round_half_even_nonneg: "0 \<le> p \<Longrightarrow> 0 \<le> round_half_even p k"
  using round_half_even_bounds [of p k] pos_imp_zdiv_nonneg_iff [of "2 ^ k" p] by simp

lemma py_float_exact:
  assumes "\<bar>n\<bar> < 2 ^ 53"
  shows "py_float n = Returns (Finite n 0)"
proof -
  from assms have "bitlen \<bar>n\<bar> \<le> 53"
    by (simp add: bitlen_le_iff_power)
  then have k: "nat (max (bitlen \<bar>n\<bar> - 53) (- 1074 - 0)) = 0" by simp
  have same: "sgn n * \<bar>n\<bar> = n" by (simp add: sgn_if)
  from \<open>bitlen \<bar>n\<bar> \<le> 53\<close> have "\<not> 1024 < bitlen \<bar>n\<bar> + (0 + int 0)" by simp
  then have "nearest_double n 0 = Finite n 0"
    unfolding nearest_double_def k Let_def round_half_even_exact using same by simp
  then show ?thesis by (simp add: py_float_def)
qed

lemma div_between:
  fixes q D j :: int
  assumes "0 < D" and "j * D \<le> q" and "q < (j + 1) * D"
  shows "q div D = j"
proof -
  define x where "x = q div D"
  define r where "r = q mod D"
  have r: "0 \<le> r" "r < D" using assms(1) by (simp_all add: r_def)
  have q: "q = D * x + r" by (simp add: x_def r_def)
  have hi: "q < D * (j + 1)" using assms(3) by (simp only: mult.commute)
  have lo: "D * j \<le> q" using assms(2) by (simp only: mult.commute)
  from q r(1) hi have "D * x < D * (j + 1)" by linarith
  then have up: "x < j + 1"
    using assms(1) by (simp only: mult_less_cancel_left_pos)
  have "D * (x + 1) = D * x + D" by (simp only: distrib_left mult_1_right)
  with q r(2) lo have "D * j < D * (x + 1)" by linarith
  then have "j < x + 1"
    using assms(1) by (simp only: mult_less_cancel_left_pos)
  with up show ?thesis unfolding x_def by linarith
qed

lemma tenth_of:
  assumes "0 \<le> n" and "n < 2 ^ 52"
  shows "py_int (float_mul (Finite n 0) one_tenth) = Returns (n div 10)"
proof -
  define p where "p = n * 7205759403792794"
  define k where "k = nat (max (bitlen \<bar>p\<bar> - 53) (- 1074 - (- 56)))"
  define q where "q = round_half_even \<bar>p\<bar> k"
  define j where "j = n div 10"
  define K :: int where "K = 2 ^ k"
  define D :: int where "D = 2 ^ (56 - k)"
  define y where "y = p div K"
  define s where "s = p mod K"
  have p0: "0 \<le> p" using assms(1) by (simp add: p_def)
  have ten: "10 * p = 72057594037927940 * n" by (simp add: p_def)
  from assms have "p \<le> (2 ^ 52 - 1) * 7205759403792794"
    unfolding p_def by (intro mult_right_mono) simp_all
  then have plt: "p < 2 ^ 105" by simp
  with p0 have "bitlen \<bar>p\<bar> \<le> 105" by (simp add: bitlen_le_iff_power)
  then have k52: "k \<le> 52" by (simp add: k_def)
  then have "K \<le> 2 ^ 52" unfolding K_def by (intro power_increasing) simp_all
  then have K52: "K \<le> 4503599627370496" by simp
  have K0: "0 < K" and D0: "0 < D" by (simp_all add: K_def D_def)
  have "K * D = 2 ^ (k + (56 - k))" unfolding K_def D_def by (simp only: power_add)
  with k52 have KD: "K * D = 72057594037927936" by simp
  have s: "0 \<le> s" "s < K" using K0 by (simp_all add: s_def)
  have p: "p = K * y + s" by (simp add: y_def s_def)
  have q_lo: "y \<le> q" and q_hi: "q \<le> y + 1"
    using round_half_even_bounds [of "\<bar>p\<bar>" k] p0 by (simp_all add: q_def y_def K_def)
  define r where "r = n mod 10"
  have n: "n = 10 * j + r" "0 \<le> r" "r \<le> 9"
    by (simp_all add: j_def r_def)
  have swap: "K * (c * D) = (K * D) * c" for c by (simp only: ac_simps)
  have nlt: "n < 4503599627370496" using assms(2) by simp
  define A where "A = K * y"
  have pA: "p = A + s" using p by (simp only: A_def)
  have next_one: "K * (y + 1) = A + K"
    unfolding A_def by (simp only: distrib_left mult_1_right)
  have "72057594037927936 * j < A + K"
    using pA s ten n assms(1) by linarith
  then have "K * (j * D) < K * (y + 1)"
    unfolding swap KD next_one .
  then have "j * D < y + 1" using K0 by (simp only: mult_less_cancel_left_pos)
  with q_lo have lo: "j * D \<le> q" by linarith
  have "10 * p + 10 * K < 720575940379279360 * j + 720575940379279360"
    using ten n nlt K52 by linarith
  with pA s have "A + K < 72057594037927936 * j + 72057594037927936"
    by linarith
  then have "A + K < 72057594037927936 * (j + 1)"
    by (simp only: distrib_left mult_1_right)
  then have "K * (y + 1) < K * ((j + 1) * D)"
    unfolding swap KD next_one .
  then have "y + 1 < (j + 1) * D" using K0 by (simp only: mult_less_cancel_left_pos)
  with q_hi have hi: "q < (j + 1) * D" by linarith
  from div_between [OF D0 lo hi] have qd: "q div D = j" .
  have q0: "0 \<le> q" using round_half_even_nonneg [of "\<bar>p\<bar>" k] by (simp add: q_def)
  from q_hi plt p0 have "q \<le> p + 1"
    using int_div_le_self [of p "2 ^ k"] unfolding y_def K_def by (cases "p = 0") simp_all
  with plt have "q < 2 ^ 106" by simp
  with q0 have "bitlen q \<le> 106" by (simp add: bitlen_le_iff_power)
  with k52 have fits: "\<not> (0 < q \<and> 1024 < bitlen q + (- 56 + int k))" by simp
  have "nearest_double p (- 56) = Finite (sgn p * q) (- 56 + int k)"
    unfolding nearest_double_def Let_def k_def [symmetric] q_def [symmetric]
    by (simp only: fits if_False)
  moreover have "float_mul (Finite n 0) one_tenth = nearest_double p (- 56)"
    by (simp add: one_tenth_def p_def)
  ultimately have mul: "float_mul (Finite n 0) one_tenth = Finite (sgn p * q) (- 56 + int k)"
    by simp
  have neg: "\<not> 0 \<le> - 56 + int k" using k52 by simp
  have ex: "(2::int) ^ nat (- (- 56 + int k)) = D"
    using k52 by (simp add: D_def nat_diff_distrib')
  have "sgn (sgn p * q) * (\<bar>sgn p * q\<bar> div D) = q div D"
  proof (cases "p = 0")
    case True
    then have "k = 0" by (simp add: k_def)
    with True have "q = 0" by (simp add: q_def round_half_even_exact)
    with True show ?thesis by simp
  next
    case False
    with p0 have "sgn p = 1" by simp
    with q0 show ?thesis by (cases "q = 0") (simp_all add: sgn_if)
  qed
  with qd have "sgn (sgn p * q) * (\<bar>sgn p * q\<bar> div D) = n div 10"
    by (simp only: j_def)
  then show ?thesis
    unfolding mul py_int_def by (simp only: pyfloat.case neg if_False ex)
qed

lemma target_frame_exact:
  assumes "0 \<le> n" and "n < 2 ^ 52"
  shows "target_frame n = Returns (max 1 (n div 10))"
proof -
  from assms have "\<bar>n\<bar> < 2 ^ 53" by simp
  then have "py_float n = Returns (Finite n 0)" by (rule py_float_exact)
  with tenth_of [OF assms] show ?thesis by (simp add: target_frame_def)
qed

lemma target_frame_positive:
  "target_frame n = Returns t \<Longrightarrow> 1 \<le> t"
  by (auto simp add: target_frame_def split: outcome.splits)

lemma nearest_double_sign:
  assumes "nearest_double m e = Finite m2 e2" and "m \<le> 0"
  shows "m2 \<le> 0"
proof -
  have "0 \<le> round_half_even \<bar>m\<bar> k" for k by (rule round_half_even_nonneg) simp
  with assms(2) have "sgn m * round_half_even \<bar>m\<bar> k \<le> 0" for k
    by (simp add: sgn_if)
  with assms(1) show ?thesis
    by (auto simp add: nearest_double_def Let_def split: if_splits)
qed

lemma py_int_sign:
  assumes "py_int (Finite m e) = Returns i" and "m \<le> 0"
  shows "i \<le> 0"
proof (cases "0 \<le> e")
  case True
  with assms show ?thesis by (auto simp add: py_int_def mult_le_0_iff)
next
  case False
  have "0 \<le> \<bar>m\<bar> div 2 ^ nat (- e)" by (simp add: pos_imp_zdiv_nonneg_iff)
  with assms(2) have "sgn m * (\<bar>m\<bar> div 2 ^ nat (- e)) \<le> 0"
    by (simp add: sgn_if)
  with False assms(1) show ?thesis by (simp add: py_int_def)
qed

lemma target_frame_nonpositive_count:
  assumes "target_frame n = Returns t" and "n \<le> 0"
  shows "t = 1"
proof -
  from assms(1) obtain x i where x: "py_float n = Returns x"
    and i: "py_int (float_mul x one_tenth) = Returns i" and t: "t = max 1 i"
    by (auto simp add: target_frame_def split: outcome.splits)
  from x obtain m e where nd: "nearest_double n 0 = Finite m e"
    by (cases "nearest_double n 0") (simp_all add: py_float_def)
  with x have xm: "x = Finite m e" by (simp add: py_float_def)
  from nearest_double_sign [OF nd assms(2)] have m: "m \<le> 0" .
  from i obtain m2 e2 where prod: "float_mul x one_tenth = Finite m2 e2"
    by (cases "float_mul x one_tenth") (simp_all add: py_int_def)
  then have "nearest_double (m * 7205759403792794) (e + - 56) = Finite m2 e2"
    by (simp add: xm one_tenth_def)
  moreover from m have "m * 7205759403792794 \<le> 0" by simp
  ultimately have "m2 \<le> 0" by (rule nearest_double_sign)
  with i prod have "i \<le> 0" by (simp add: py_int_sign)
  with t show ?thesis by simp
qed

lemma round_half_even_53:
  assumes "0 \<le> p" and "bitlen p - 53 \<le> int k"
  shows "round_half_even p k \<le> 2 ^ 53"
proof -
  define K :: int where "K = 2 ^ k"
  define y where "y = p div K"
  define s where "s = p mod K"
  have K0: "0 < K" by (simp add: K_def)
  have s: "0 \<le> s" using K0 by (simp add: s_def)
  have p: "p = K * y + s" by (simp add: y_def s_def)
  from assms(2) have "bitlen p \<le> int (53 + k)" by simp
  then have "p < 2 ^ (53 + k)" by (simp only: bitlen_le_iff_power nat_int)
  then have "p < K * 2 ^ 53" by (simp add: K_def power_add)
  with p s have "K * y < K * 2 ^ 53" by linarith
  then have "y < 2 ^ 53" using K0 by (simp only: mult_less_cancel_left_pos)
  with round_half_even_bounds [of p k] show ?thesis by (simp add: y_def K_def)
qed

lemma nearest_double_finite:
  assumes "e + int (nat (max (bitlen \<bar>m\<bar> - 53) (- 1074 - e))) \<le> 970"
  shows "\<exists>m2 e2. nearest_double m e = Finite m2 e2 \<and> \<bar>m2\<bar> \<le> 2 ^ 53
           \<and> e2 \<le> 970 \<and> - 1074 \<le> e2"
proof -
  define k where "k = nat (max (bitlen \<bar>m\<bar> - 53) (- 1074 - e))"
  define q where "q = round_half_even \<bar>m\<bar> k"
  have "bitlen \<bar>m\<bar> - 53 \<le> int k" unfolding k_def by linarith
  then have q53: "q \<le> 2 ^ 53" unfolding q_def by (intro round_half_even_53) simp_all
  have q0: "0 \<le> q" unfolding q_def by (rule round_half_even_nonneg) simp
  from q53 have "q < 2 ^ 54" by simp
  then have "bitlen q \<le> 54" by (simp add: bitlen_le_iff_power)
  with assms have fits: "\<not> (0 < q \<and> 1024 < bitlen q + (e + int k))"
    by (simp add: k_def)
  have "nearest_double m e = Finite (sgn m * q) (e + int k)"
    unfolding nearest_double_def Let_def k_def [symmetric] q_def [symmetric]
    by (simp only: fits if_False)
  moreover from q0 q53 have "\<bar>sgn m * q\<bar> \<le> 2 ^ 53" by (simp add: abs_mult sgn_if)
  moreover from assms have "e + int k \<le> 970" by (simp add: k_def)
  moreover have "- 1074 \<le> e + int k" unfolding k_def by linarith
  ultimately show ?thesis by blast
qed

lemma target_frame_returns:
  assumes "\<bar>n\<bar> < 2 ^ 1023"
  shows "\<exists>t. target_frame n = Returns t"
proof -
  from assms have "bitlen \<bar>n\<bar> \<le> 1023" by (simp add: bitlen_le_iff_power)
  then have "0 + int (nat (max (bitlen \<bar>n\<bar> - 53) (- 1074 - 0))) \<le> 970" by simp
  from nearest_double_finite [OF this]
  obtain m e where nd: "nearest_double n 0 = Finite m e" and m: "\<bar>m\<bar> \<le> 2 ^ 53"
    and e: "e \<le> 970" "- 1074 \<le> e"
    by blast
  from nd have x: "py_float n = Returns (Finite m e)" by (simp add: py_float_def)
  have "\<bar>m * 7205759403792794\<bar> = \<bar>m\<bar> * 7205759403792794" by (simp add: abs_mult)
  also from m have "\<dots> \<le> 2 ^ 53 * 7205759403792794" by (intro mult_right_mono) simp_all
  also have "\<dots> < (2 ^ 106 :: int)" by simp
  finally have "bitlen \<bar>m * 7205759403792794\<bar> \<le> 106"
    by (simp add: bitlen_le_iff_power)
  with e have "(e + - 56)
      + int (nat (max (bitlen \<bar>m * 7205759403792794\<bar> - 53) (- 1074 - (e + - 56)))) \<le> 970"
    by linarith
  from nearest_double_finite [OF this]
  obtain m2 e2 where "nearest_double (m * 7205759403792794) (e + - 56) = Finite m2 e2"
    by blast
  then have "float_mul (Finite m e) one_tenth = Finite m2 e2" by (simp add: one_tenth_def)
  then have "\<exists>i. py_int (float_mul (Finite m e) one_tenth) = Returns i"
    by (simp add: py_int_def)
  with x show ?thesis by (auto simp add: target_frame_def)
qed

text \<open>
  From \<open>2 ^ 52\<close> on the rounding of the product shows: this count ends in 8999, and the
  product is rounded up to the next whole number.
\<close>

lemma target_frame_beyond_exact_range:
  "target_frame 9007199254738999 = Returns 900719925473900"
  by code_simp

text \<open>A frame count that is not a number or is infinite ends the computation before any seek.\<close>

lemma video_thumbnail_without_frame_count:
  assumes "fs filepath = Some f" and "as_video f = Returns (Some cap)"
    and "py_int (cap_frame_count cap) = Raises e"
  shows "create_video_thumbnail fs h filepath
           = (Raises e, h\<lparr>decoder_calls := decoder_calls h @ [filepath]\<rparr>)
    \<and> (is_video_file filepath \<and> cache h filepath = None \<longrightarrow>
          fst (create_thumbnail fs h filepath) = None)"
  using assms by (simp add: create_thumbnail_def create_video_thumbnail_def Let_def)

text \<open>
  C9. For a video file whose capture opens and reports the frame count \<open>frame_count\<close>,
  the thumbnail computation seeks to \<open>t = max 1 (int (frame_count * 0.1))\<close>, the product
  being that of doubles. For every count from 0 below \<open>2 ^ 52\<close> this is
  \<open>max 1 \<lfloor>frame_count / 10\<rfloor>\<close>, and for every count of magnitude below \<open>2 ^ 1023\<close> the
  computation of \<open>t\<close> returns. Whenever it returns, \<open>t\<close> is at least 1 (it is 1 for a
  count that is zero or negative), and the thumbnail is made of the frame at position
  \<open>t\<close>, or there is none when the clip has no frame there; when it raises, nothing is
  sought and the exception leaves \<^verbatim>\<open>_create_video_thumbnail\<close>.
\<close>

theorem video_thumbnail_seeks_target_frame:
  assumes "fs filepath = Some f" and "as_video f = Returns (Some cap)"
    and "py_int (cap_frame_count cap) = Returns frame_count"
  shows "(0 \<le> frame_count \<and> frame_count < 2 ^ 52 \<longrightarrow>
            target_frame frame_count = Returns (max 1 (frame_count div 10)))
    \<and> (\<bar>frame_count\<bar> < 2 ^ 1023 \<longrightarrow> (\<exists>t. target_frame frame_count = Returns t))
    \<and> (case target_frame frame_count of
          Raises e \<Rightarrow>
            create_video_thumbnail fs h filepath
              = (Raises e, h\<lparr>decoder_calls := decoder_calls h @ [filepath]\<rparr>)
        | Returns t \<Rightarrow>
            1 \<le> t
            \<and> (frame_count < 2 ^ 52 \<longrightarrow> t = max 1 (frame_count div 10))
            \<and> create_video_thumbnail fs h filepath
                = (if nat t < length (cap_frames cap)
                   then (Returns (Some (PhotoImage (photos_made h)
                           (VideoIndicator (Thumbnail (thumbnail_size h)
                              (FromArray (cap_frames cap ! nat t)))))),
                         h\<lparr>decoder_calls := decoder_calls h @ [filepath],
                           photos_made := Suc (photos_made h)\<rparr>)
                   else (Returns None, h\<lparr>decoder_calls := decoder_calls h @ [filepath]\<rparr>)))"
proof (intro conjI impI)
  assume "0 \<le> frame_count \<and> frame_count < 2 ^ 52"
  then show "target_frame frame_count = Returns (max 1 (frame_count div 10))"
    by (simp add: target_frame_exact)
next
  assume "\<bar>frame_count\<bar> < 2 ^ 1023"
  then show "\<exists>t. target_frame frame_count = Returns t"
    by (rule target_frame_returns)
next
  show "case target_frame frame_count of
          Raises e \<Rightarrow>
            create_video_thumbnail fs h filepath
              = (Raises e, h\<lparr>decoder_calls := decoder_calls h @ [filepath]\<rparr>)
        | Returns t \<Rightarrow>
            1 \<le> t
            \<and> (frame_count < 2 ^ 52 \<longrightarrow> t = max 1 (frame_count div 10))
            \<and> create_video_thumbnail fs h filepath
                = (if nat t < length (cap_frames cap)
                   then (Returns (Some (PhotoImage (photos_made h)
                           (VideoIndicator (Thumbnail (thumbnail_size h)
                              (FromArray (cap_frames cap ! nat t)))))),
                         h\<lparr>decoder_calls := decoder_calls h @ [filepath],
                           photos_made := Suc (photos_made h)\<rparr>)
                   else (Returns None, h\<lparr>decoder_calls := decoder_calls h @ [filepath]\<rparr>))"
  proof (cases "target_frame frame_count")
    case (Raises e)
    with assms show ?thesis by (simp add: create_video_thumbnail_def Let_def)
  next
    case (Returns t)
    then have one: "1 \<le> t" by (rule target_frame_positive)
    have tenth: "t = max 1 (frame_count div 10)" if small: "frame_count < 2 ^ 52"
    proof (cases "frame_count \<le> 0")
      case True
      with Returns have "t = 1" by (rule target_frame_nonpositive_count)
      moreover from True have "frame_count div 10 \<le> 0"
        by (simp add: div_nonpos_pos_le0)
      ultimately show ?thesis by simp
    next
      case False
      with small have "target_frame frame_count = Returns (max 1 (frame_count div 10))"
        by (intro target_frame_exact) simp_all
      with Returns show ?thesis by simp
    qed
    from one have "read_frame cap t
        = (if nat t < length (cap_frames cap) then Some (cap_frames cap ! nat t) else None)"
      by (simp add: read_frame_def)
    with assms Returns have "create_video_thumbnail fs h filepath
        = (if nat t < length (cap_frames cap)
           then (Returns (Some (PhotoImage (photos_made h)
                   (VideoIndicator (Thumbnail (thumbnail_size h)
                      (FromArray (cap_frames cap ! nat t)))))),
                 h\<lparr>decoder_calls := decoder_calls h @ [filepath],
                   photos_made := Suc (photos_made h)\<rparr>)
           else (Returns None, h\<lparr>decoder_calls := decoder_calls h @ [filepath]\<rparr>))"
      by (simp add: create_video_thumbnail_def Let_def)
    with one tenth Returns show ?thesis by simp
  qed
qed

theorem video_thumbnail_three_frames:
  "py_int (cap_frame_count short_clip) = Returns 3
   \<and> target_frame 3 = Returns 1
   \<and> create_video_thumbnail video_fs new_handler ''short.mp4''
       = (Returns (Some (PhotoImage 0
            (VideoIndicator (Thumbnail (300, 200) (FromArray (Frame 1)))))),
          \<lparr>thumbnail_size = (300, 200), cache = Map.empty, decoder_calls = [''short.mp4''],
             photos_made = 1\<rparr>)"
proof -
  have f: "video_fs ''short.mp4'' = Some short_file"
    by (simp add: video_fs_def)
  have v: "as_video short_file = Returns (Some short_clip)"
    by (simp add: short_file_def)
  have c: "py_int (cap_frame_count short_clip) = Returns 3"
    by (simp add: py_int_def short_clip_def)
  from video_thumbnail_seeks_target_frame
    [of video_fs "''short.mp4''" short_file short_clip 3 new_handler, OF f v c]
  have t: "target_frame 3 = Returns 1" by simp
  with video_thumbnail_seeks_target_frame
    [of video_fs "''short.mp4''" short_file short_clip 3 new_handler, OF f v c] c
  show ?thesis by (simp add: short_clip_def new_handler_def)
qed

subsection \<open>Keeping the selected files\<close>

text \<open>
  C10. With a non-empty selection (all of it in the file list, as the viewers maintain),
  keep-only-selected leaves exactly the selected files in the list, in their original
  relative order, and empties the selection; with an empty selection it changes
  nothing. The same holds for the headless viewer and for the GUI.
\<close>

theorem keep_selected_keeps_exactly_selection:
  "(selected_files s = {} \<longrightarrow> keep_selected s = (s, [NoFilesSelected]))
   \<and> (selected_files s \<noteq> {} \<and> selected_files s \<subseteq> set (media_files s) \<longrightarrow>
        media_files (fst (keep_selected s))
          = filter (\<lambda>f. f \<in> selected_files s) (media_files s)
        \<and> set (media_files (fst (keep_selected s))) = selected_files s
        \<and> selected_files (fst (keep_selected s)) = {})
   \<and> (g_selected_files g = {} \<longrightarrow> gui_keep_selected g = g)
   \<and> (g_selected_files g \<noteq> {} \<and> g_selected_files g \<subseteq> set (g_media_files g) \<longrightarrow>
        g_media_files (gui_keep_selected g)
          = filter (\<lambda>f. f \<in> g_selected_files g) (g_media_files g)
        \<and> set (g_media_files (gui_keep_selected g)) = g_selected_files g
        \<and> g_selected_files (gui_keep_selected g) = {})"
proof -
  have cli_empty: "selected_files s = {} \<longrightarrow> keep_selected s = (s, [NoFilesSelected])"
    by (simp add: keep_selected_def)
  have cli_keep: "selected_files s \<noteq> {} \<and> selected_files s \<subseteq> set (media_files s) \<longrightarrow>
        media_files (fst (keep_selected s))
          = filter (\<lambda>f. f \<in> selected_files s) (media_files s)
        \<and> set (media_files (fst (keep_selected s))) = selected_files s
        \<and> selected_files (fst (keep_selected s)) = {}"
    by (auto simp add: keep_selected_def Let_def)
  have gui_empty: "g_selected_files g = {} \<longrightarrow> gui_keep_selected g = g"
    by (simp add: gui_keep_selected_def)
  have gui_keep: "g_selected_files g \<noteq> {} \<and> g_selected_files g \<subseteq> set (g_media_files g) \<longrightarrow>
        g_media_files (gui_keep_selected g)
          = filter (\<lambda>f. f \<in> g_selected_files g) (g_media_files g)
        \<and> set (g_media_files (gui_keep_selected g)) = g_selected_files g
        \<and> g_selected_files (gui_keep_selected g) = {}"
    by (auto simp add: gui_keep_selected_def populate_grid_def clear_grid_def
        filter_empty_conv)
  from cli_empty cli_keep gui_empty gui_keep show ?thesis by blast
qed

theorem keep_selected_example:
  "media_files (fst (keep_selected
      \<lparr>media_files = [''a.jpg'', ''b.png'', ''c.mp4''],
       selected_files = {''c.mp4'', ''a.jpg''}, current_directory = ''d''\<rparr>))
     = [''a.jpg'', ''c.mp4'']
   \<and> selected_files (fst (keep_selected
      \<lparr>media_files = [''a.jpg'', ''b.png'', ''c.mp4''],
       selected_files = {''c.mp4'', ''a.jpg''}, current_directory = ''d''\<rparr>)) = {}
   \<and> g_media_files (gui_keep_selected
      \<lparr>g_media_files = [''a.jpg'', ''b.png'', ''c.mp4''],
       g_selected_files = {''b.png''}, g_current_directory = ''d'',
       g_grid = [''a.jpg'', ''b.png'', ''c.mp4''], g_status = []\<rparr>) = [''b.png'']
   \<and> keep_selected \<lparr>media_files = [''a.jpg''], selected_files = {}, current_directory = ''d''\<rparr>
     = (\<lparr>media_files = [''a.jpg''], selected_files = {}, current_directory = ''d''\<rparr>,
        [NoFilesSelected])"
  using keep_selected_keeps_exactly_selection
      [of "\<lparr>media_files = [''a.jpg'', ''b.png'', ''c.mp4''],
            selected_files = {''c.mp4'', ''a.jpg''}, current_directory = ''d''\<rparr>"
          "\<lparr>g_media_files = [''a.jpg'', ''b.png'', ''c.mp4''],
            g_selected_files = {''b.png''}, g_current_directory = ''d'',
            g_grid = [''a.jpg'', ''b.png'', ''c.mp4''], g_status = []\<rparr>"]
    keep_selected_keeps_exactly_selection
      [of "\<lparr>media_files = [''a.jpg''], selected_files = {}, current_directory = ''d''\<rparr>"]
  by simp

subsection \<open>The thumbnail cache\<close>

lemma create_thumbnail_hit:
  "cache h f = Some t \<Longrightarrow> create_thumbnail fs h f = (Some t, h)"
  by (simp add: create_thumbnail_def)

lemma create_thumbnail_stores:
  "create_thumbnail fs h f = (Some t, h1) \<Longrightarrow> cache h1 f = Some t"
  by (auto simp add: create_thumbnail_def create_video_thumbnail_def
      create_image_thumbnail_def Let_def
      split: option.splits outcome.splits if_splits prod.splits)

lemma create_thumbnail_keeps_entries:
  "cache h f = Some t \<Longrightarrow> cache (snd (create_thumbnail fs h g)) f = Some t"
  by (auto simp add: create_thumbnail_def create_video_thumbnail_def
      create_image_thumbnail_def Let_def
      split: option.splits outcome.splits if_splits prod.splits)

lemma fetch_all_keeps_entries:
  "cache h f = Some t \<Longrightarrow> cache (fetch_all reqs h) f = Some t"
proof (induction reqs arbitrary: h)
  case Nil
  then show ?case by simp
next
  case (Cons r reqs)
  obtain fs p where r: "r = (fs, p)" by (cases r)
  from Cons.prems have "cache (snd (create_thumbnail fs h p)) f = Some t"
    by (rule create_thumbnail_keeps_entries)
  then show ?case unfolding r by (simp add: Cons.IH)
qed

lemma create_thumbnail_miss_decodes:
  "cache h f = None \<Longrightarrow>
     decoder_calls (snd (create_thumbnail fs h f)) = decoder_calls h @ [f]
     \<and> (case fst (create_thumbnail fs h f) of None \<Rightarrow> True
         | Some t \<Rightarrow> photo_id t = photos_made h)"
  by (auto simp add: create_thumbnail_def create_video_thumbnail_def
      create_image_thumbnail_def Let_def
      split: option.splits outcome.splits if_splits prod.splits)

text \<open>
  On the local handler a fetch reads the file of its own identifier only, and leaves the
  entries of all other identifiers as they are.
\<close>

lemma create_thumbnail_reads_own_file:
  assumes "fs filepath = fs2 filepath"
  shows "create_thumbnail fs h filepath = create_thumbnail fs2 h filepath"
proof -
  from assms
  have "create_video_thumbnail fs h filepath = create_video_thumbnail fs2 h filepath"
    and "create_image_thumbnail fs h filepath = create_image_thumbnail fs2 h filepath"
    by (simp_all add: create_video_thumbnail_def create_image_thumbnail_def)
  then show ?thesis
    by (simp add: create_thumbnail_def split: option.splits)
qed

lemma create_thumbnail_other_entries:
  "g \<noteq> f \<Longrightarrow> cache (snd (create_thumbnail fs h g)) f = cache h f"
  by (auto simp add: create_thumbnail_def create_video_thumbnail_def
      create_image_thumbnail_def Let_def
      split: option.splits outcome.splits if_splits prod.splits)

lemma a_jpg_not_video: "is_video_file ''a.jpg'' = False"
  by code_simp

lemma first_fetch_of_a:
  "create_thumbnail example_fs new_handler ''a.jpg'' = (Some a_photo, handler_with_a)"
  by (simp add: create_thumbnail_def create_image_thumbnail_def a_jpg_not_video
      example_fs_def new_handler_def image_file_def a_photo_def handler_with_a_def
      example_image_def)

text \<open>
  C1. Once a fetch has returned a thumbnail for an identifier, every later fetch for it,
  after any number of other fetches and whatever the files have become, returns that
  same object and leaves the handler as it was (no decoder call, no new object). After
  \<^verbatim>\<open>clear_cache\<close> the next fetch hands the file to the decoder again, and a thumbnail it
  returns is a new object.
\<close>

theorem cache_entry_reused_until_clear:
  assumes "create_thumbnail fs h f = (Some t, h1)"
  shows "create_thumbnail fs2 h1 f = (Some t, h1)
    \<and> create_thumbnail fs2 (fetch_all reqs h1) f = (Some t, fetch_all reqs h1)
    \<and> decoder_calls (snd (create_thumbnail fs2 (clear_cache (fetch_all reqs h1)) f))
        = decoder_calls (fetch_all reqs h1) @ [f]
    \<and> (case fst (create_thumbnail fs2 (clear_cache (fetch_all reqs h1)) f) of
          None \<Rightarrow> True
        | Some t2 \<Rightarrow> photo_id t2 = photos_made (fetch_all reqs h1))"
proof -
  from assms have stored: "cache h1 f = Some t"
    by (rule create_thumbnail_stores)
  then have later: "cache (fetch_all reqs h1) f = Some t"
    by (rule fetch_all_keeps_entries)
  have cleared: "cache (clear_cache (fetch_all reqs h1)) f = None"
    by (simp add: clear_cache_def)
  have same:
    "decoder_calls (clear_cache (fetch_all reqs h1)) = decoder_calls (fetch_all reqs h1)"
    "photos_made (clear_cache (fetch_all reqs h1)) = photos_made (fetch_all reqs h1)"
    by (simp_all add: clear_cache_def)
  from create_thumbnail_hit [OF stored] create_thumbnail_hit [OF later]
    create_thumbnail_miss_decodes [OF cleared, of fs2] same
  show ?thesis by (simp split: option.splits)
qed

theorem cache_entry_reused_example:
  "create_thumbnail example_fs new_handler ''a.jpg'' = (Some a_photo, handler_with_a)
   \<and> create_thumbnail Map.empty handler_with_a ''a.jpg'' = (Some a_photo, handler_with_a)
   \<and> decoder_calls (snd (create_thumbnail Map.empty (clear_cache handler_with_a) ''a.jpg''))
        = [''a.jpg'', ''a.jpg'']
   \<and> fst (create_thumbnail Map.empty (clear_cache handler_with_a) ''a.jpg'') = None"
proof -
  have gone: "fst (create_thumbnail Map.empty (clear_cache handler_with_a) ''a.jpg'') = None"
    by (simp add: create_thumbnail_def create_image_thumbnail_def a_jpg_not_video
        clear_cache_def handler_with_a_def)
  have calls: "decoder_calls handler_with_a = [''a.jpg'']"
    by (simp add: handler_with_a_def)
  from cache_entry_reused_until_clear [OF first_fetch_of_a, of Map.empty "[]"] gone calls
  show ?thesis by (simp add: first_fetch_of_a)
qed

subsection \<open>Media information\<close>

lemma get_media_info_returns: "\<exists>info. get_media_info fs filepath = Returns info"
  by (auto simp add: get_media_info_def getsize_def path_exists_def Let_def
      split: option.splits outcome.splits prod.splits)

lemma get_media_info_missing_file:
  "fs filepath = None \<Longrightarrow>
     get_media_info fs filepath = Returns [''error'' \<mapsto> PyStr ''File not found'']"
  by (simp add: get_media_info_def path_exists_def)

lemma clip_mp4_is_video: "is_video_file ''clip.mp4'' = True"
  by code_simp

lemma clip_mp4_supported: "is_supported_file ''clip.mp4'' = True"
  by code_simp

lemma clip_mp4_basename: "basename ''clip.mp4'' = ''clip.mp4''"
  by code_simp

text \<open>
  C8 at a video file whose capture handle does not open: the call returns a dictionary,
  and the dictionary has no \<^verbatim>\<open>"error"\<close> key (nor any dimension).
\<close>

theorem unopened_video_has_no_error_field:
  "get_media_info example_fs ''clip.mp4'' = Returns unopened_info
   \<and> unopened_info ''error'' = None
   \<and> unopened_info ''width'' = None
   \<and> example_fs ''clip.mp4'' = Some unreadable_file
   \<and> as_video unreadable_file = Returns None"
  by (simp add: get_media_info_def get_media_info_try_def path_exists_def getsize_def
      example_fs_def unreadable_file_def unopened_info_def clip_mp4_is_video
      clip_mp4_supported clip_mp4_basename)

subsection \<open>The remote bridge\<close>

lemma clip_not_video: "is_video_file ''/tmp/media_bridge_x/clip.jpg'' = False"
  by code_simp

lemma clip_local:
  "join ''/tmp/media_bridge_x'' (basename ''/srv/a/clip.jpg'') = ''/tmp/media_bridge_x/clip.jpg''"
  by code_simp

lemma clip_local_b:
  "join ''/tmp/media_bridge_x'' (basename ''/srv/b/clip.jpg'') = ''/tmp/media_bridge_x/clip.jpg''"
  by code_simp

lemma slow_local:
  "join ''/tmp/media_bridge_x'' (basename ''/srv/a/slow.jpg'') = ''/tmp/media_bridge_x/slow.jpg''"
  by code_simp

lemma first_remote_fetch:
  "remote_create_thumbnail example_scp Map.empty new_remote_handler ''/srv/a/clip.jpg''
     = (Some clip_photo, handler_with_clip, Map.empty)"
  by (simp add: Let_def remote_create_thumbnail_def download_file_def example_scp_def
      clip_local new_remote_handler_def create_thumbnail_def create_image_thumbnail_def
      clip_not_video image_file_def example_image_def remove_if_exists_def path_exists_def
      clip_photo_def handler_with_clip_def)

text \<open>
  C5 on the remote handler: the cache key is the scratch path, which keeps only the
  file's name. After \<^verbatim>\<open>/srv/a/clip.jpg\<close> was fetched, the fetch of \<^verbatim>\<open>/srv/b/clip.jpg\<close>, a
  different picture, returns the thumbnail made from the first file.
\<close>

theorem remote_cache_shared_by_basename:
  "remote_create_thumbnail example_scp Map.empty new_remote_handler ''/srv/a/clip.jpg''
     = (Some clip_photo, handler_with_clip, Map.empty)
   \<and> remote_create_thumbnail example_scp Map.empty handler_with_clip ''/srv/b/clip.jpg''
     = (Some clip_photo, handler_with_clip, Map.empty)
   \<and> photo_picture clip_photo = Thumbnail (300, 200) (FromFile example_image)
   \<and> example_scp ''/srv/b/clip.jpg'' = Copied (image_file other_image)
   \<and> other_image \<noteq> example_image"
  by (simp add: first_remote_fetch)
     (simp add: Let_def remote_create_thumbnail_def download_file_def example_scp_def
      clip_local_b create_thumbnail_def handler_with_clip_def remove_if_exists_def
      path_exists_def clip_photo_def other_image_def example_image_def)

text \<open>
  C4 at a transfer that fails after writing part of the file: both operations report the
  failure and do not call the local operation, and the partial file stays in the scratch
  directory.
\<close>

theorem failed_transfer_leaves_partial_file:
  "remote_create_thumbnail example_scp Map.empty new_remote_handler ''/srv/a/slow.jpg''
     = (None, new_remote_handler, [''/tmp/media_bridge_x/slow.jpg'' \<mapsto> unreadable_file])
   \<and> remote_get_media_info example_scp Map.empty new_remote_handler ''/srv/a/slow.jpg''
     = (Returns [''error'' \<mapsto> PyStr ''Could not download file''],
        [''/tmp/media_bridge_x/slow.jpg'' \<mapsto> unreadable_file])
   \<and> example_scp ''/srv/a/slow.jpg'' = Failed (Some unreadable_file)"
  by (simp add: Let_def remote_create_thumbnail_def remote_get_media_info_def
      download_file_def example_scp_def slow_local new_remote_handler_def)

text \<open>What holds at every failed transfer: the result, and that the handler is untouched.\<close>

lemma failed_transfer_reports:
  assumes "scp filepath = Failed residue"
  shows "fst (remote_create_thumbnail scp fs h filepath) = None
    \<and> fst (snd (remote_create_thumbnail scp fs h filepath)) = h
    \<and> fst (remote_get_media_info scp fs h filepath)
        = Returns [''error'' \<mapsto> PyStr ''Could not download file'']"
  using assms
  by (cases residue)
     (simp_all add: Let_def remote_create_thumbnail_def remote_get_media_info_def
       download_file_def)

text \<open>
  C3, as the claim states it, fails at open-externally: after it has returned, the copy
  it downloaded is still in the scratch directory.
\<close>

theorem open_externally_keeps_copy:
  "snd (snd (open_file_externally example_scp Map.empty new_remote_handler ''/srv/a/clip.jpg''))
     ''/tmp/media_bridge_x/clip.jpg'' = Some (image_file example_image)"
  by (simp add: Let_def open_file_externally_def download_file_def example_scp_def clip_local
      new_remote_handler_def)

lemma remove_after_copy: "remove_if_exists p (fs(p \<mapsto> f)) = fs(p := None)"
  by (simp add: remove_if_exists_def path_exists_def)

text \<open>
  C3, amended. When the transfer succeeds, the thumbnail and the metadata operation leave
  the local file system as it was but for the scratch path of the file, which is absent
  afterwards, whatever the wrapped operation returned; open-externally leaves the copy
  at that path.
\<close>

theorem scratch_copy_removed_after_use:
  assumes "scp filepath = Copied f"
  shows "snd (snd (remote_create_thumbnail scp fs h filepath))
           = fs(join (temp_dir h) (basename filepath) := None)
    \<and> snd (remote_get_media_info scp fs h filepath)
           = fs(join (temp_dir h) (basename filepath) := None)
    \<and> snd (snd (open_file_externally scp fs h filepath))
           = fs(join (temp_dir h) (basename filepath) \<mapsto> f)"
  using assms
  by (simp add: remote_create_thumbnail_def remote_get_media_info_def
      open_file_externally_def download_file_def remove_after_copy Let_def
      split: prod.splits)

theorem scratch_copy_removed_example:
  "snd (snd (remote_create_thumbnail example_scp Map.empty new_remote_handler
        ''/srv/a/clip.jpg'')) = Map.empty
   \<and> snd (remote_get_media_info example_scp Map.empty new_remote_handler
        ''/srv/a/clip.jpg'') = Map.empty
   \<and> snd (snd (open_file_externally example_scp Map.empty new_remote_handler
        ''/srv/a/clip.jpg''))
      = [''/tmp/media_bridge_x/clip.jpg'' \<mapsto> image_file example_image]"
proof -
  have copied: "example_scp ''/srv/a/clip.jpg'' = Copied (image_file example_image)"
    by (simp add: example_scp_def)
  have dir: "temp_dir new_remote_handler = ''/tmp/media_bridge_x''"
    by (simp add: new_remote_handler_def)
  show ?thesis
    using scratch_copy_removed_after_use
      [of example_scp "''/srv/a/clip.jpg''" "image_file example_image" Map.empty
          new_remote_handler, OF copied]
    by (simp add: dir clip_local)
qed

subsection \<open>The enumerator\<close>

lemma get_files_is_sorted_filter:
  "get_files_in_directory env directory recursive
     = sort (filter (\<lambda>p. (recursive \<or> isfile env p) \<and> is_supported_file p)
               (visited_paths env directory recursive))"
proof (cases recursive)
  case True
  have "concat (map (\<lambda>(root, dirs, filenames).
                  filter is_supported_file (map (join root) filenames)) ws)
        = filter is_supported_file
            (concat (map (\<lambda>(root, dirs, filenames). map (join root) filenames) ws))"
    for ws :: "(path \<times> string list \<times> string list) list"
    by (induction ws) auto
  with True show ?thesis
    by (simp add: get_files_in_directory_def visited_paths_def)
next
  case False
  then show ?thesis
    by (simp add: get_files_in_directory_def visited_paths_def split: outcome.splits)
qed

text \<open>
  C6. When the platform lists every path once, the enumerator's output is strictly
  increasing in the lexicographic order of strings (sorted, no duplicates), and the
  lower-cased extension of every identifier in it is in the allow-list.
\<close>

theorem enumerator_sorted_distinct_supported:
  assumes "distinct (visited_paths env directory recursive)"
  shows "sorted_wrt (<) (get_files_in_directory env directory recursive)
    \<and> sorted (get_files_in_directory env directory recursive)
    \<and> distinct (get_files_in_directory env directory recursive)
    \<and> (\<forall>f \<in> set (get_files_in_directory env directory recursive).
          lower (snd (splitext f)) \<in> SUPPORTED_IMAGE_FORMATS \<union> SUPPORTED_VIDEO_FORMATS)"
proof -
  let ?out = "get_files_in_directory env directory recursive"
  have srt: "sorted ?out"
    by (simp add: get_files_is_sorted_filter)
  have dst: "distinct ?out"
    using assms by (simp add: get_files_is_sorted_filter)
  have sup: "\<forall>f \<in> set ?out.
      lower (snd (splitext f)) \<in> SUPPORTED_IMAGE_FORMATS \<union> SUPPORTED_VIDEO_FORMATS"
    by (auto simp add: get_files_is_sorted_filter is_supported_file_def Let_def)
  from srt dst sup show ?thesis
    by (simp add: strict_sorted_iff)
qed

lemma example_listing:
  "get_files_in_directory example_dirs ''/d2'' False = [''/d2/B.PNG'', ''/d2/b.jpg'']"
  "get_files_in_directory example_dirs ''/d2'' True = [''/d2/B.PNG'', ''/d2/b.jpg'']"
  "get_files_in_directory example_dirs ''/d1'' False = [''/d1/a.jpg'']"
  by code_simp+

lemma example_visited:
  "visited_paths example_dirs ''/d2'' True = [''/d2/b.jpg'', ''/d2/notes.txt'', ''/d2/B.PNG'']"
  by code_simp

theorem enumerator_example:
  "sorted_wrt (<) (get_files_in_directory example_dirs ''/d2'' True)
   \<and> distinct (get_files_in_directory example_dirs ''/d2'' True)
   \<and> get_files_in_directory example_dirs ''/d2'' True = [''/d2/B.PNG'', ''/d2/b.jpg'']
   \<and> lower (snd (splitext ''/d2/B.PNG'')) \<in> SUPPORTED_IMAGE_FORMATS \<union> SUPPORTED_VIDEO_FORMATS"
proof -
  have once: "distinct (visited_paths example_dirs ''/d2'' True)"
    by (simp add: example_visited)
  from enumerator_sorted_distinct_supported [OF once]
  show ?thesis by (simp add: example_listing)
qed

text \<open>
  Where the hypothesis comes from: file names hold no slash, so joining a directory
  (written without a trailing slash) with distinct names gives distinct paths, in one
  directory and over the distinct directories of a walk.
\<close>

lemma join_plain:
  "CHR ''/'' \<notin> set b \<Longrightarrow> a \<noteq> [] \<Longrightarrow> last a \<noteq> CHR ''/'' \<Longrightarrow> join a b = a @ ''/'' @ b"
  by (cases b) (auto simp add: join_def)

lemma split_at_last_slash:
  assumes "a @ CHR ''/'' # b = a' @ CHR ''/'' # b'"
    and "CHR ''/'' \<notin> set b" and "CHR ''/'' \<notin> set b'"
  shows "a = a' \<and> b = b'"
proof -
  from assms(1) have "rev b @ CHR ''/'' # rev a = rev b' @ CHR ''/'' # rev a'"
    by (metis rev_append rev.simps(2) append.assoc append_Cons append_Nil)
  moreover have "takeWhile (\<lambda>c. c \<noteq> CHR ''/'') (rev b @ CHR ''/'' # rev a) = rev b"
    using assms(2) by (subst takeWhile_append2) auto
  moreover have "takeWhile (\<lambda>c. c \<noteq> CHR ''/'') (rev b' @ CHR ''/'' # rev a') = rev b'"
    using assms(3) by (subst takeWhile_append2) auto
  ultimately have "b = b'" by (metis rev_is_rev_conv)
  with assms(1) show ?thesis by simp
qed

lemma join_inject:
  assumes "join a b = join a' b'"
    and "CHR ''/'' \<notin> set b" and "CHR ''/'' \<notin> set b'"
    and "a \<noteq> []" and "last a \<noteq> CHR ''/''" and "a' \<noteq> []" and "last a' \<noteq> CHR ''/''"
  shows "a = a' \<and> b = b'"
  using assms split_at_last_slash [of a b a' b'] by (simp add: join_plain)

lemma listdir_paths_distinct:
  assumes "listdir env directory = Returns names" and "distinct names"
    and "\<forall>n \<in> set names. CHR ''/'' \<notin> set n"
    and "directory \<noteq> []" and "last directory \<noteq> CHR ''/''"
  shows "distinct (visited_paths env directory False)"
proof -
  have "inj_on (join directory) (set names)"
    using assms(3-5) by (auto simp add: inj_on_def dest: join_inject)
  with assms(1,2) show ?thesis
    by (simp add: visited_paths_def distinct_map)
qed

lemma walk_paths_distinct:
  assumes "distinct (map fst (walk env directory))"
    and "\<forall>(root, dirs, filenames) \<in> set (walk env directory).
           root \<noteq> [] \<and> last root \<noteq> CHR ''/'' \<and> distinct filenames
           \<and> (\<forall>n \<in> set filenames. CHR ''/'' \<notin> set n)"
  shows "distinct (visited_paths env directory True)"
proof -
  have "distinct (concat (map (\<lambda>(root, dirs, filenames). map (join root) filenames) ws))"
    if "distinct (map fst ws)"
      and "\<forall>(root, dirs, filenames) \<in> set ws.
             root \<noteq> [] \<and> last root \<noteq> CHR ''/'' \<and> distinct filenames
             \<and> (\<forall>n \<in> set filenames. CHR ''/'' \<notin> set n)"
    for ws :: "(path \<times> string list \<times> string list) list"
    using that
  proof (induction ws)
    case Nil
    then show ?case by simp
  next
    case (Cons w ws)
    obtain root dirs filenames where w: "w = (root, dirs, filenames)"
      by (cases w)
    from Cons.prems w have root: "root \<noteq> []" "last root \<noteq> CHR ''/''"
      and names: "distinct filenames" "\<forall>n \<in> set filenames. CHR ''/'' \<notin> set n"
      and fresh: "root \<notin> fst ` set ws"
      by auto
    have "inj_on (join root) (set filenames)"
      using root names(2) by (auto simp add: inj_on_def dest: join_inject)
    with names(1) have here: "distinct (map (join root) filenames)"
      by (simp add: distinct_map)
    have apart: "join root n \<noteq> join root2 n2"
      if "n \<in> set filenames" "(root2, dirs2, filenames2) \<in> set ws" "n2 \<in> set filenames2"
      for n root2 dirs2 filenames2 n2
    proof
      assume same: "join root n = join root2 n2"
      from that(2) Cons.prems(2) that(3)
      have "root2 \<noteq> []" "last root2 \<noteq> CHR ''/''" "CHR ''/'' \<notin> set n2"
        by auto
      with same root names(2) that(1) have "root = root2"
        using join_inject [of root n root2 n2] by simp
      with that(2) fresh show False by force
    qed
    from Cons.prems have "distinct (concat (map (\<lambda>(root, dirs, filenames).
        map (join root) filenames) ws))"
      by (intro Cons.IH) auto
    with here apart show ?case
      unfolding w by auto
  qed
  from this [OF assms] show ?thesis
    by (simp add: visited_paths_def)
qed

subsection \<open>Selection and the file list\<close>






lemma gui_load_directory_in_list:
  "g_selected_files s \<subseteq> set (g_media_files s) \<Longrightarrow>
     g_selected_files (gui_load_directory env recursive s directory)
       \<subseteq> set (g_media_files (gui_load_directory env recursive s directory))"
  by (simp add: gui_load_directory_def populate_grid_def clear_grid_def Let_def)









subsection \<open>Bulk delete\<close>

lemma remove1_as_filter:
  "distinct xs \<Longrightarrow> remove1 x xs = filter (\<lambda>f. f \<noteq> x) xs"
proof -
  have "removeAll x xs = filter (\<lambda>f. f \<noteq> x) xs"
    by (induction xs) auto
  then show "distinct xs \<Longrightarrow> remove1 x xs = filter (\<lambda>f. f \<noteq> x) xs"
    by (simp add: distinct_remove1_removeAll)
qed

lemma delete_loop_effect:
  assumes "distinct order" and "set order \<subseteq> selected_files s"
    and "set order \<subseteq> set (media_files s)" and "distinct (media_files s)"
  shows "media_files (fst (delete_loop os_remove order (s, n, out)))
           = filter (\<lambda>f. \<not> (f \<in> set order \<and> os_remove f = None)) (media_files s)
    \<and> selected_files (fst (delete_loop os_remove order (s, n, out)))
           = selected_files s - {f \<in> set order. os_remove f = None}
    \<and> fst (snd (delete_loop os_remove order (s, n, out)))
           = n + length (filter (\<lambda>f. os_remove f = None) order)"
  using assms
proof (induction order arbitrary: s n out)
  case Nil
  then show ?case by simp
next
  case (Cons filepath rest)
  from Cons.prems have rest: "distinct rest" "filepath \<notin> set rest"
    and here: "filepath \<in> selected_files s" "filepath \<in> set (media_files s)"
    by auto
  show ?case
  proof (cases "os_remove filepath")
    case (Some e)
    from Cons.prems rest
    have "set rest \<subseteq> selected_files s" "set rest \<subseteq> set (media_files s)" by auto
    from Cons.IH [OF rest(1) this Cons.prems(4), of n "out @ [ErrorDeleting (basename filepath) e]"]
    have ih: "media_files (fst (delete_loop os_remove (filepath # rest) (s, n, out)))
           = filter (\<lambda>f. \<not> (f \<in> set rest \<and> os_remove f = None)) (media_files s)"
      "selected_files (fst (delete_loop os_remove (filepath # rest) (s, n, out)))
           = selected_files s - {f \<in> set rest. os_remove f = None}"
      "fst (snd (delete_loop os_remove (filepath # rest) (s, n, out)))
           = n + length (filter (\<lambda>f. os_remove f = None) rest)"
      using Some by simp_all
    have same: "filter (\<lambda>f. \<not> (f \<in> set rest \<and> os_remove f = None)) (media_files s)
        = filter (\<lambda>f. \<not> (f \<in> set (filepath # rest) \<and> os_remove f = None)) (media_files s)"
      using Some by (intro filter_cong) auto
    have sel: "{f \<in> set rest. os_remove f = None}
        = {f \<in> set (filepath # rest). os_remove f = None}"
      using Some by auto
    from ih same sel Some show ?thesis by simp
  next
    case None
    let ?s1 = "s\<lparr>media_files := remove1 filepath (media_files s),
                  selected_files := selected_files s - {filepath}\<rparr>"
    have step: "delete_loop os_remove (filepath # rest) (s, n, out)
        = delete_loop os_remove rest (?s1, Suc n, out @ [Deleted (basename filepath)])"
      using None here by simp
    have media1: "media_files ?s1 = filter (\<lambda>f. f \<noteq> filepath) (media_files s)"
      using Cons.prems(4) by (simp add: remove1_as_filter)
    have pre: "set rest \<subseteq> selected_files ?s1" "set rest \<subseteq> set (media_files ?s1)"
      "distinct (media_files ?s1)"
      using Cons.prems rest by (auto simp add: media1)
    from Cons.IH [OF rest(1) pre, of "Suc n" "out @ [Deleted (basename filepath)]"]
    have ih: "media_files (fst (delete_loop os_remove (filepath # rest) (s, n, out)))
           = filter (\<lambda>f. \<not> (f \<in> set rest \<and> os_remove f = None))
               (filter (\<lambda>f. f \<noteq> filepath) (media_files s))"
      "selected_files (fst (delete_loop os_remove (filepath # rest) (s, n, out)))
           = selected_files s - {filepath} - {f \<in> set rest. os_remove f = None}"
      "fst (snd (delete_loop os_remove (filepath # rest) (s, n, out)))
           = Suc n + length (filter (\<lambda>f. os_remove f = None) rest)"
      unfolding step by (simp_all add: media1)
    have same: "filter (\<lambda>f. \<not> (f \<in> set rest \<and> os_remove f = None))
               (filter (\<lambda>f. f \<noteq> filepath) (media_files s))
        = filter (\<lambda>f. \<not> (f \<in> set (filepath # rest) \<and> os_remove f = None)) (media_files s)"
      unfolding filter_filter using None by (intro filter_cong) auto
    have sel: "selected_files s - {filepath} - {f \<in> set rest. os_remove f = None}
        = selected_files s - {f \<in> set (filepath # rest). os_remove f = None}"
      using None by auto
    from ih same sel None show ?thesis by simp
  qed
qed

text \<open>
  C7. A confirmed delete of the selected files, all of them in the (duplicate-free) file
  list, runs over every selected file whatever fails on the way. With \<open>ok\<close> the selected
  files that \<^verbatim>\<open>os.remove\<close> removed, it reports \<open>card ok\<close> of the number selected, the new
  list is the old one without the files of \<open>ok\<close>, so the selected files still listed are
  those that failed, and the new selection is the old one without \<open>ok\<close>.
\<close>

theorem delete_selected_tally_and_state:
  assumes "selected_files s \<noteq> {}"
    and "lower (strip response) \<in> set [''yes'', ''y'']"
    and "set order = selected_files s" and "distinct order"
    and "selected_files s \<subseteq> set (media_files s)" and "distinct (media_files s)"
  shows "last (snd (delete_selected os_remove response order s))
           = Tally (card {f \<in> selected_files s. os_remove f = None}) (card (selected_files s))
    \<and> media_files (fst (delete_selected os_remove response order s))
           = filter (\<lambda>f. f \<notin> {f \<in> selected_files s. os_remove f = None}) (media_files s)
    \<and> {f \<in> set (media_files (fst (delete_selected os_remove response order s))).
          f \<in> selected_files s}
           = {f \<in> selected_files s. os_remove f \<noteq> None}
    \<and> selected_files (fst (delete_selected os_remove response order s))
           = selected_files s - {f \<in> selected_files s. os_remove f = None}
    \<and> length (media_files (fst (delete_selected os_remove response order s)))
           = length (media_files s) - card {f \<in> selected_files s. os_remove f = None}"
proof -
  let ?ok = "{f \<in> selected_files s. os_remove f = None}"
  let ?run = "delete_loop os_remove order (s, 0, [])"
  let ?done = "delete_selected os_remove response order s"
  have sub: "set order \<subseteq> selected_files s" "set order \<subseteq> set (media_files s)"
    using assms(3,5) by auto
  note effect = delete_loop_effect [OF assms(4) sub assms(6), of os_remove 0 "[]"]
  have in_order: "(f \<in> set order \<and> os_remove f = None) = (f \<in> ?ok)" for f
    using assms(3) by simp
  have media: "media_files (fst ?run) = filter (\<lambda>f. f \<notin> ?ok) (media_files s)"
    using effect by (simp only: in_order)
  have ok_order: "{f \<in> set order. os_remove f = None} = ?ok"
    using assms(3) by simp
  have sel: "selected_files (fst ?run) = selected_files s - ?ok"
    using effect by (simp only: ok_order)
  have counted: "fst (snd ?run) = length (filter (\<lambda>f. os_remove f = None) order)"
    using effect by (simp only: add_0)
  have removed: "set (filter (\<lambda>f. os_remove f = None) order) = ?ok"
    using assms(3) by auto
  have "distinct (filter (\<lambda>f. os_remove f = None) order)"
    using assms(4) by simp
  then have "card (set (filter (\<lambda>f. os_remove f = None) order))
      = length (filter (\<lambda>f. os_remove f = None) order)"
    by (rule distinct_card)
  then have count: "length (filter (\<lambda>f. os_remove f = None) order) = card ?ok"
    by (simp only: removed)
  have tally: "fst (snd ?run) = card ?ok"
    by (simp only: counted count)
  have result: "?done
      = (fst ?run, snd (snd ?run) @ [Tally (fst (snd ?run)) (card (selected_files s))])"
    using assms(1,2) by (simp add: delete_selected_def Let_def split: prod.splits)
  have state: "fst ?done = fst ?run"
    by (simp only: result fst_conv)
  have report: "last (snd ?done) = Tally (card ?ok) (card (selected_files s))"
    by (simp only: result snd_conv last_snoc tally)
  have left: "{f \<in> set (filter (\<lambda>f. f \<notin> ?ok) (media_files s)). f \<in> selected_files s}
      = {f \<in> selected_files s. os_remove f \<noteq> None}"
    using assms(5) by auto
  have gone: "length (filter (\<lambda>f. f \<in> ?ok) (media_files s)) = card ?ok"
  proof -
    have there: "set (filter (\<lambda>f. f \<in> ?ok) (media_files s)) = ?ok"
      using assms(5) by auto
    have "distinct (filter (\<lambda>f. f \<in> ?ok) (media_files s))"
      using assms(6) by simp
    then have "card (set (filter (\<lambda>f. f \<in> ?ok) (media_files s)))
        = length (filter (\<lambda>f. f \<in> ?ok) (media_files s))"
      by (rule distinct_card)
    then show ?thesis by (simp only: there)
  qed
  have "length (filter (\<lambda>f. f \<in> ?ok) (media_files s))
        + length (filter (\<lambda>f. f \<notin> ?ok) (media_files s)) = length (media_files s)"
    by (rule sum_length_filter_compl)
  with gone
  have len: "length (filter (\<lambda>f. f \<notin> ?ok) (media_files s)) = length (media_files s) - card ?ok"
    by linarith
  show ?thesis
    unfolding state report media sel
    by (intro conjI refl left len)
qed

lemma removed_of_three:
  "{f \<in> selected_files three_files. c_is_protected f = None} = {''/d/a.jpg''}"
  by (auto simp add: three_files_def c_is_protected_def)

theorem delete_selected_example:
  "last (snd (delete_selected c_is_protected ''Yes '' [''/d/c.jpg'', ''/d/a.jpg''] three_files))
     = Tally 1 2
   \<and> media_files (fst (delete_selected c_is_protected ''Yes '' [''/d/c.jpg'', ''/d/a.jpg'']
        three_files)) = [''/d/b.jpg'', ''/d/c.jpg'']
   \<and> selected_files (fst (delete_selected c_is_protected ''Yes '' [''/d/c.jpg'', ''/d/a.jpg'']
        three_files)) = {''/d/c.jpg''}"
proof -
  have yes: "lower (strip ''Yes '') \<in> set [''yes'', ''y'']"
    by code_simp
  have some: "selected_files three_files \<noteq> {}"
    and order: "set [''/d/c.jpg'', ''/d/a.jpg''] = selected_files three_files"
      "distinct [''/d/c.jpg'', ''/d/a.jpg'']"
    and listed: "selected_files three_files \<subseteq> set (media_files three_files)"
      "distinct (media_files three_files)"
    by (auto simp add: three_files_def)
  have two: "card (selected_files three_files) = 2"
    by (simp add: three_files_def)
  have kept: "filter (\<lambda>f. f \<noteq> ''/d/a.jpg'') (media_files three_files) = [''/d/b.jpg'', ''/d/c.jpg'']"
    "selected_files three_files - {''/d/a.jpg''} = {''/d/c.jpg''}"
    by (auto simp add: three_files_def)
  from delete_selected_tally_and_state [OF some yes order listed, of c_is_protected]
  show ?thesis
    by (simp add: removed_of_three two kept)
qed

end
